theory Spec2Isabelle
  imports Main "HOL-Library.Log_Nat"
begin

section \<open>Constants and data model of \<open>main.cpp\<close>\<close>

definition TABLE_QTY :: int where
  "TABLE_QTY = 4"

definition TABLE_CAPACITY :: int where
  "TABLE_CAPACITY = 4"

datatype Entrees = RAW_FISH | EGGS | HAM | BISC | TOAST

text \<open>The two parallel arrays \<open>entreeNames\<close> and \<open>entreePrices\<close>, indexed by the enum.\<close>

fun entreeNames :: "Entrees \<Rightarrow> string" where
  "entreeNames RAW_FISH = ''Raw Fish''"
| "entreeNames EGGS = ''Eggs''"
| "entreeNames HAM = ''Ham''"
| "entreeNames BISC = ''Biscuits''"
| "entreeNames TOAST = ''Toast''"

fun entreePrices :: "Entrees \<Rightarrow> int" where
  "entreePrices RAW_FISH = 35"
| "entreePrices EGGS = 45"
| "entreePrices HAM = 38"
| "entreePrices BISC = 38"
| "entreePrices TOAST = 38"

text \<open>
  \<open>static_cast<Entrees>(choice - 1)\<close>. The argument is always in \<open>0..4\<close>, because the
  choice comes from \<open>checkNum(1, 5, ...)\<close>; the last branch is only there to make the
  function total.
\<close>

definition Entrees_of_int :: "int \<Rightarrow> Entrees" where
  "Entrees_of_int i =
     (if i = 0 then RAW_FISH else if i = 1 then EGGS else if i = 2 then HAM
      else if i = 3 then BISC else TOAST)"

record Table =
  capacity :: int
  seatedGuests :: int

record Order =
  items :: "Entrees list"
  isCompleted :: bool
  isPaid :: bool

text \<open>The default member initialisers: \<open>Table()\<close> and \<open>Order()\<close>.\<close>

definition Table_default :: Table where
  "Table_default = \<lparr>capacity = TABLE_CAPACITY, seatedGuests = 0\<rparr>"

definition Order_default :: Order where
  "Order_default = \<lparr>items = [], isCompleted = False, isPaid = False\<rparr>"

section \<open>\<open>std::map<int, T>\<close> as a key-ordered association list\<close>

text \<open>
  \<open>map_of m k\<close> is \<open>find\<close>/\<open>count\<close>; \<open>map_put\<close> stores a value under a key, keeping the
  keys in ascending order as \<open>std::map\<close> iterates them; \<open>map_index\<close> is \<open>operator[]\<close>,
  which inserts a default-constructed value when the key is absent and returns the value
  together with the (possibly extended) map.
\<close>

fun map_put :: "int \<Rightarrow> 'a \<Rightarrow> (int \<times> 'a) list \<Rightarrow> (int \<times> 'a) list" where
  "map_put k v [] = [(k, v)]"
| "map_put k v ((k', v') # m) =
     (if k < k' then (k, v) # (k', v') # m
      else if k = k' then (k, v) # m
      else (k', v') # map_put k v m)"

definition map_index :: "(int \<times> 'a) list \<Rightarrow> int \<Rightarrow> 'a \<Rightarrow> 'a \<times> (int \<times> 'a) list" where
  "map_index m k dflt =
     (case map_of m k of
        Some v \<Rightarrow> (v, m)
      | None \<Rightarrow> (dflt, map_put k dflt m))"

section \<open>Floating point: \<open>double\<close> as the rational it denotes\<close>

text \<open>
  A finite \<open>double\<close> is modelled by its exact value. \<open>to_double\<close> rounds a rational to
  the nearest binary64 number (53 significant bits, ties to even), which is what a decimal
  literal, a conversion and each arithmetic operation do in the default rounding mode.
  Overflow to infinity and the subnormal range are not modelled; the amounts of this
  program are far from both.
\<close>

type_synonym double = rat

definition two_pow :: "int \<Rightarrow> rat" where
  "two_pow e = (if 0 \<le> e then 2 ^ nat e else 1 / 2 ^ nat (- e))"

definition round_half_even :: "rat \<Rightarrow> int" where
  "round_half_even x =
     (let f = \<lfloor>x\<rfloor>; d = x - of_int f
      in if d < 1 / 2 then f
         else if 1 / 2 < d then f + 1
         else if even f then f else f + 1)"

text \<open>\<open>binary_exponent a\<close> is \<open>\<lfloor>log\<^sub>2 a\<rfloor>\<close> for a positive rational \<open>a\<close>.\<close>

definition binary_exponent :: "rat \<Rightarrow> int" where
  "binary_exponent a =
     (if 1 \<le> a then bitlen \<lfloor>a\<rfloor> - 1 else - bitlen (\<lceil>1 / a\<rceil> - 1))"

definition to_double :: "rat \<Rightarrow> double" where
  "to_double x =
     (if x = 0 then 0
      else let a = \<bar>x\<bar>; u = two_pow (binary_exponent a - 52)
           in sgn x * of_int (round_half_even (a / u)) * u)"

definition TAX_RATE :: double where
  "TAX_RATE = to_double (10 / 100)"

definition TIP_RATE :: double where
  "TIP_RATE = to_double (20 / 100)"

definition double_of_int :: "int \<Rightarrow> double" where
  "double_of_int n = to_double (of_int n)"

definition dmul :: "double \<Rightarrow> double \<Rightarrow> double" where
  "dmul a b = to_double (a * b)"

definition dadd :: "double \<Rightarrow> double \<Rightarrow> double" where
  "dadd a b = to_double (a + b)"

section \<open>Program state and console input\<close>

text \<open>
  The receipt file written by a successful payment: \<open>Transaction#<transId>.txt\<close> with the
  header's table number, one \<open>name - $price\<close> line per item and the four amounts in the
  order the file prints them.
\<close>

record Receipt =
  transId :: int
  receiptTable :: int
  receiptLines :: "(string \<times> int) list"
  receiptSubtotal :: int
  receiptTip :: double
  receiptTax :: double
  receiptTotal :: double

text \<open>
  The two global maps, the receipt files written so far (oldest first) and the number of
  calls of \<open>rand()\<close> made so far.
\<close>

record state =
  tables :: "(int \<times> Table) list"
  orders :: "(int \<times> Order) list"
  receipts :: "Receipt list"
  randCalls :: nat

text \<open>
  Standard input is the sequence of characters typed. \<open>isspace\<close> and \<open>isdigit\<close> are those
  of the "C" locale.
\<close>

definition isspace :: "char \<Rightarrow> bool" where
  "isspace c =
     (c = CHR '' '' \<or> c = CHR 0x09 \<or> c = CHR 0x0A \<or> c = CHR 0x0B \<or> c = CHR 0x0C \<or> c = CHR 0x0D)"

definition isdigit :: "char \<Rightarrow> bool" where
  "isdigit c = (48 \<le> (of_char c :: nat) \<and> (of_char c :: nat) \<le> 57)"

definition digit_value :: "char \<Rightarrow> int" where
  "digit_value c = int (of_char c) - 48"

text \<open>
  \<open>cin >> val\<close> for an \<open>int\<close>: white space is skipped, then an optional sign and the
  longest run of decimal digits are consumed. The extraction fails (\<open>cin.fail()\<close>) when there
  is no digit or the value does not fit 32 bits. The result is the value, if any, and the
  characters left unread.
\<close>

definition extract_int :: "string \<Rightarrow> int option \<times> string" where
  "extract_int inp =
     (case (case dropWhile isspace inp of
              [] \<Rightarrow> (False, [])
            | c # cs \<Rightarrow>
                if c = CHR ''-'' then (True, cs)
                else if c = CHR ''+'' then (False, cs)
                else (False, c # cs)) of
        (negative, body) \<Rightarrow>
          let digits = takeWhile isdigit body;
              rest = dropWhile isdigit body;
              magnitude = foldl (\<lambda>acc d. 10 * acc + digit_value d) 0 digits;
              val = (if negative then - magnitude else magnitude)
          in if digits = [] \<or> val < - 2147483648 \<or> 2147483647 < val then (None, rest)
             else (Some val, rest))"

text \<open>\<open>cin.ignore(numeric_limits<streamsize>::max(), '\n')\<close>: the rest of the line is dropped.\<close>

definition ignore_line :: "string \<Rightarrow> string" where
  "ignore_line inp = drop 1 (dropWhile (\<lambda>c. c \<noteq> CHR 0x0A) inp)"

text \<open>
  \<open>cin >> confirm\<close> for a \<open>char\<close>: white space is skipped and one character is taken. At
  the end of the input nothing is extracted: \<open>None\<close>.
\<close>

definition extract_char :: "string \<Rightarrow> (char \<times> string) option" where
  "extract_char inp = (case dropWhile isspace inp of [] \<Rightarrow> None | c # rest \<Rightarrow> Some (c, rest))"

text \<open>
  \<open>checkNum\<close> prompts until an integer inside \<open>[min, max]\<close> is read. After a failed
  extraction or a value out of range the rest of the line is dropped
  (\<open>cin.clear(); cin.ignore(...)\<close>) and the prompt repeats. When only white space is left,
  every further extraction fails and the loop never returns: \<open>None\<close>.
\<close>

function checkNum :: "int \<Rightarrow> int \<Rightarrow> string \<Rightarrow> (int \<times> string) option" where
  "checkNum lo hi inp =
     (if dropWhile isspace inp = [] then None
      else
        (case extract_int inp of
           (None, rest) \<Rightarrow> checkNum lo hi (ignore_line rest)
         | (Some val, rest) \<Rightarrow>
             if val < lo \<or> val > hi then checkNum lo hi (ignore_line rest)
             else Some (val, rest)))"
  by pat_completeness auto
termination
proof (relation "measure (\<lambda>(lo, hi, inp). length inp)")
  have ignore_le: "length (ignore_line xs) \<le> length xs" for xs
    using length_dropWhile_le [of "\<lambda>c. c \<noteq> CHR 0x0A" xs] by (simp add: ignore_line_def)
  have digits_le: "length (dropWhile isdigit xs) \<le> length xs" for xs
    by (rule length_dropWhile_le)
  have "length (ignore_line rest) < length inp"
    if ne: "dropWhile isspace inp \<noteq> []" and ex: "extract_int inp = (r, rest)" for inp r rest
  proof -
    from ne obtain c cs where s1: "dropWhile isspace inp = c # cs"
      by (cases "dropWhile isspace inp") auto
    have nsp: "\<not> isspace c"
      using s1 by (metis hd_dropWhile list.sel(1) ne)
    have le: "length (c # cs) \<le> length inp"
      using length_dropWhile_le [of isspace inp] by (simp add: s1)
    show ?thesis
    proof (cases "c = CHR ''-'' \<or> c = CHR ''+''")
      case True
      with ex s1 have "rest = dropWhile isdigit cs"
        by (auto simp: extract_int_def Let_def split: if_splits)
      with digits_le [of cs] ignore_le [of rest] le show ?thesis by simp
    next
      case False
      with ex s1 have rest: "rest = dropWhile isdigit (c # cs)"
        by (auto simp: extract_int_def Let_def split: if_splits)
      show ?thesis
      proof (cases "isdigit c")
        case True
        with rest have "rest = dropWhile isdigit cs" by simp
        with digits_le [of cs] ignore_le [of rest] le show ?thesis by simp
      next
        case False
        with rest have "rest = c # cs" by simp
        moreover from nsp have "c \<noteq> CHR 0x0A" by (auto simp: isspace_def)
        ultimately have "ignore_line rest = ignore_line cs"
          by (simp add: ignore_line_def)
        with ignore_le [of cs] le show ?thesis by simp
      qed
    qed
  qed
  note shorter = this
  have shorter': "length (ignore_line rest) < length inp"
    if a: "dropWhile isspace inp \<noteq> []" and b: "(r, rest) = extract_int inp" for inp r rest
    using shorter [OF a b [symmetric]] .
  show "wf (measure (\<lambda>(lo, hi, inp). length inp))" by simp
  show "((lo, hi, ignore_line y), lo, hi, inp) \<in> measure (\<lambda>(lo, hi, inp). length inp)"
    if "dropWhile isspace inp \<noteq> []" and "(x, y) = extract_int inp" and "x = None"
    for lo hi :: int and inp x y
    using shorter' [OF that(1,2)] by simp
  show "((lo, hi, ignore_line y), lo, hi, inp) \<in> measure (\<lambda>(lo, hi, inp). length inp)"
    if "dropWhile isspace inp \<noteq> []" and "(x, y) = extract_int inp" and "x = Some x2"
      and "x2 < lo \<or> hi < x2"
    for lo hi :: int and inp x y x2
    using shorter' [OF that(1,2)] by simp
qed

declare checkNum.simps [simp del]

section \<open>Operations\<close>

text \<open>The loop of \<open>allOrdersPaidAndComplete\<close>, with its early \<open>return false\<close>.\<close>

fun allOrdersPaidAndComplete :: "(int \<times> Order) list \<Rightarrow> bool" where
  "allOrdersPaidAndComplete [] = True"
| "allOrdersPaidAndComplete ((tableId, order) # rest) =
     (if \<not> isCompleted order \<or> \<not> isPaid order then False
      else allOrdersPaidAndComplete rest)"

text \<open>\<open>initializeTables\<close>: \<open>tables[i] = Table()\<close> for \<open>i = 1 .. TABLE_QTY\<close>.\<close>

definition initializeTables :: "(int \<times> Table) list \<Rightarrow> (int \<times> Table) list" where
  "initializeTables tbls = foldl (\<lambda>m i. map_put i Table_default m) tbls [1..TABLE_QTY]"

definition initial_state :: state where
  "initial_state = \<lparr>tables = initializeTables [], orders = [], receipts = [], randCalls = 0\<rparr>"

text \<open>What an operation reports on the console (the text printed, by its meaning).\<close>

record Bill =
  subtotal :: int
  tax :: double
  tip :: double
  total :: double

datatype outcome =
    TableIsFull int
  | OrderPlaced int
  | NoPendingOrders
  | NoOrderFound int
  | MarkedComplete int
  | NotCompleted int
  | PaymentSuccessful Bill int
  | PaymentCancelled Bill
  | NoOrdersToComplete
  | NoUnpaidOrders
  | Goodbye
  | CannotClose

text \<open>The item loop of \<open>placeOrder\<close>: one \<open>checkNum(1, entreeNames.size(), ...)\<close> per guest.\<close>

fun readItems :: "nat \<Rightarrow> string \<Rightarrow> (Entrees list \<times> string) option" where
  "readItems 0 inp = Some ([], inp)"
| "readItems (Suc n) inp =
     (case checkNum 1 5 inp of
        None \<Rightarrow> None
      | Some (choice, inp1) \<Rightarrow>
          (case readItems n inp1 of
             None \<Rightarrow> None
           | Some (its, inp2) \<Rightarrow> Some (Entrees_of_int (choice - 1) # its, inp2)))"

definition placeOrder :: "state \<Rightarrow> string \<Rightarrow> (outcome \<times> state \<times> string) option" where
  "placeOrder s inp =
     (case checkNum 1 TABLE_QTY inp of
        None \<Rightarrow> None
      | Some (tableId, inp1) \<Rightarrow>
          (case map_index (tables s) tableId Table_default of
             (table, tbls) \<Rightarrow>
               let availableSeats = TABLE_CAPACITY - seatedGuests table in
               if availableSeats \<le> 0 then Some (TableIsFull tableId, s\<lparr>tables := tbls\<rparr>, inp1)
               else
                 (case checkNum 1 availableSeats inp1 of
                    None \<Rightarrow> None
                  | Some (guests, inp2) \<Rightarrow>
                      let tbls' = map_put tableId
                            (table\<lparr>seatedGuests := seatedGuests table + guests\<rparr>) tbls in
                      (case readItems (nat guests) inp2 of
                         None \<Rightarrow> None
                       | Some (its, inp3) \<Rightarrow>
                           (case map_index (orders s) tableId Order_default of
                              (order, ords) \<Rightarrow>
                                Some (OrderPlaced tableId,
                                      s\<lparr>tables := tbls',
                                        orders := map_put tableId
                                          (order\<lparr>items := items order @ its\<rparr>) ords\<rparr>,
                                      inp3))))))"

text \<open>\<open>checkTableStatus\<close>: the status line of every table in \<open>1 .. TABLE_QTY\<close> that has an order.\<close>

datatype status = AwaitingCompletion | AwaitingPayment | AllDone

definition statusOf :: "Order \<Rightarrow> status" where
  "statusOf order =
     (if \<not> isCompleted order then AwaitingCompletion
      else if \<not> isPaid order then AwaitingPayment
      else AllDone)"

definition checkTableStatus :: "(int \<times> Order) list \<Rightarrow> (int \<times> status) list" where
  "checkTableStatus ords =
     concat (map (\<lambda>tableId. case map_of ords tableId of
                               None \<Rightarrow> []
                             | Some order \<Rightarrow> [(tableId, statusOf order)])
                 [1..TABLE_QTY])"

definition checkOrderAndTableStatus :: "state \<Rightarrow> string \<Rightarrow> (int \<times> string) option" where
  "checkOrderAndTableStatus s inp =
     (if \<not> allOrdersPaidAndComplete (orders s) then checkNum 1 TABLE_QTY inp
      else Some (- 1, inp))"

definition completeOrder :: "state \<Rightarrow> string \<Rightarrow> (outcome \<times> state \<times> string) option" where
  "completeOrder s inp =
     (case checkOrderAndTableStatus s inp of
        None \<Rightarrow> None
      | Some (tableId, inp1) \<Rightarrow>
          if tableId = - 1 then Some (NoPendingOrders, s, inp1)
          else
            (case map_of (orders s) tableId of
               None \<Rightarrow> Some (NoOrderFound tableId, s, inp1)
             | Some order \<Rightarrow>
                 Some (MarkedComplete tableId,
                       s\<lparr>orders := map_put tableId (order\<lparr>isCompleted := True\<rparr>) (orders s)\<rparr>,
                       inp1)))"

text \<open>The bill of \<open>payForOrder\<close> (lines 183 to 189).\<close>

definition computeBill :: "Entrees list \<Rightarrow> Bill" where
  "computeBill its =
     (let sub = foldl (\<lambda>acc item. acc + entreePrices item) 0 its;
          tx = dmul (double_of_int sub) TAX_RATE;
          tp = dmul (double_of_int sub) TIP_RATE;
          tot = dadd (dadd (double_of_int sub) tx) tp
      in \<lparr>subtotal = sub, tax = tx, tip = tp, total = tot\<rparr>)"

text \<open>\<open>tolower\<close> in the "C" locale.\<close>

definition tolower :: "char \<Rightarrow> char" where
  "tolower c =
     (let n = (of_char c :: nat)
      in if 65 \<le> n \<and> n \<le> 90 then char_of (n + 32) else c)"

text \<open>
  \<open>payForOrder\<close>. \<open>rnd k\<close> is the value of the \<open>k\<close>-th call of \<open>rand()\<close>. When the input ends
  at the confirmation prompt, \<open>confirm\<close> is read uninitialised and the program has no
  defined outcome: \<open>None\<close>.
\<close>

definition payForOrder ::
  "(nat \<Rightarrow> nat) \<Rightarrow> state \<Rightarrow> string \<Rightarrow> (outcome \<times> state \<times> string) option" where
  "payForOrder rnd s inp =
     (case checkOrderAndTableStatus s inp of
        None \<Rightarrow> None
      | Some (tableId, inp1) \<Rightarrow>
          if tableId = - 1 then Some (NoPendingOrders, s, inp1)
          else
            (case map_of (orders s) tableId of
               None \<Rightarrow> Some (NoOrderFound tableId, s, inp1)
             | Some order \<Rightarrow>
                 if \<not> isCompleted order then Some (NotCompleted tableId, s, inp1)
                 else
                   let bill = computeBill (items order) in
                   (case extract_char inp1 of
                      None \<Rightarrow> None
                    | Some (confirm, inp2) \<Rightarrow>
                        if tolower confirm = CHR ''y'' then
                          (case map_index (tables s) tableId Table_default of
                             (table, tbls) \<Rightarrow>
                               let tid = int (rnd (randCalls s) mod 9000) + 1000 in
                               Some (PaymentSuccessful bill tid,
                                     s\<lparr>orders := map_put tableId (order\<lparr>isPaid := True\<rparr>) (orders s),
                                       tables := map_put tableId (table\<lparr>seatedGuests := 0\<rparr>) tbls,
                                       receipts := receipts s @
                                         [\<lparr>transId = tid, receiptTable = tableId,
                                           receiptLines =
                                             map (\<lambda>item. (entreeNames item, entreePrices item))
                                               (items order),
                                           receiptSubtotal = subtotal bill,
                                           receiptTip = tip bill,
                                           receiptTax = tax bill,
                                           receiptTotal = total bill\<rparr>],
                                       randCalls := Suc (randCalls s)\<rparr>,
                                     inp2))
                        else Some (PaymentCancelled bill, s, inp2))))"

text \<open>
  The guard of menu option 4 (lines 235 and 266):
  \<open>!(orders.empty()) && allOrdersPaidAndComplete()\<close>.
\<close>

definition canClose :: "state \<Rightarrow> bool" where
  "canClose s = (orders s \<noteq> [] \<and> allOrdersPaidAndComplete (orders s))"

text \<open>
  One iteration of the loop of \<open>main\<close>: the outcome, the new state, the remaining input and
  the new value of \<open>inService\<close>.
\<close>

definition in_service ::
  "(outcome \<times> state \<times> string) option \<Rightarrow> (outcome \<times> state \<times> string \<times> bool) option" where
  "in_service r = (case r of None \<Rightarrow> None | Some (out, s, inp) \<Rightarrow> Some (out, s, inp, True))"

definition main_iteration ::
  "(nat \<Rightarrow> nat) \<Rightarrow> state \<Rightarrow> string \<Rightarrow> (outcome \<times> state \<times> string \<times> bool) option" where
  "main_iteration rnd s inp =
     (case checkNum 1 4 inp of
        None \<Rightarrow> None
      | Some (choice, inp1) \<Rightarrow>
          if choice = 1 then in_service (placeOrder s inp1)
          else if choice = 2 then
            (if orders s \<noteq> [] \<and> \<not> allOrdersPaidAndComplete (orders s)
             then in_service (completeOrder s inp1)
             else Some (NoOrdersToComplete, s, inp1, True))
          else if choice = 3 then
            (if orders s \<noteq> [] \<and> \<not> allOrdersPaidAndComplete (orders s)
             then in_service (payForOrder rnd s inp1)
             else Some (NoUnpaidOrders, s, inp1, True))
          else
            (if canClose s then Some (Goodbye, s, inp1, False)
             else Some (CannotClose, s, inp1, True)))"

text \<open>
  The loop of \<open>main\<close>: the outcomes in the order they are reported and the state when option 4
  ends the program. The loop runs for as long as \<open>inService\<close> holds, so it may not return.
\<close>

partial_function (option) main_loop ::
  "(nat \<Rightarrow> nat) \<Rightarrow> state \<Rightarrow> string \<Rightarrow> (outcome list \<times> state) option" where
  "main_loop rnd s inp =
     (case main_iteration rnd s inp of
        None \<Rightarrow> None
      | Some (out, s', inp', inService) \<Rightarrow>
          if inService
          then Option.bind (main_loop rnd s' inp') (\<lambda>(outs, final). Some (out # outs, final))
          else Some ([out], s'))"

text \<open>\<open>main\<close>: \<open>initializeTables()\<close>, then the loop.\<close>

definition main :: "(nat \<Rightarrow> nat) \<Rightarrow> string \<Rightarrow> (outcome list \<times> state) option" where
  "main rnd inp = main_loop rnd initial_state inp"

text \<open>
  The states the program can be in between two operations: the state after
  \<open>initializeTables\<close>, and every state an operation returns from such a state, whatever
  the input and the values of \<open>rand()\<close>.
\<close>

inductive reachable :: "state \<Rightarrow> bool" where
  init: "reachable initial_state"
| place: "reachable s \<Longrightarrow> placeOrder s inp = Some (out, s', inp') \<Longrightarrow> reachable s'"
| complete: "reachable s \<Longrightarrow> completeOrder s inp = Some (out, s', inp') \<Longrightarrow> reachable s'"
| pay: "reachable s \<Longrightarrow> payForOrder rnd s inp = Some (out, s', inp') \<Longrightarrow> reachable s'"

section \<open>Example sessions\<close>

text \<open>
  A sequence of \<open>rand()\<close> values: the first three are those that glibc's \<open>rand()\<close> returns
  when \<open>srand\<close> has not been called, as in this program.
\<close>

definition rand_example :: "nat \<Rightarrow> nat" where
  "rand_example k =
     (if k = 0 then 1804289383 else if k = 1 then 846930886 else 1681692777)"

definition newline :: char where
  "newline = CHR 0x0A"

definition four_tables :: "int \<Rightarrow> (int \<times> Table) list" where
  "four_tables n =
     [(1, \<lparr>capacity = 4, seatedGuests = n\<rparr>), (2, \<lparr>capacity = 4, seatedGuests = 0\<rparr>),
      (3, \<lparr>capacity = 4, seatedGuests = 0\<rparr>), (4, \<lparr>capacity = 4, seatedGuests = 0\<rparr>)]"

definition fish_bill :: Bill where
  "fish_bill = \<lparr>subtotal = 35, tax = 7 / 2, tip = 7, total = 91 / 2\<rparr>"

definition fish_receipt :: "int \<Rightarrow> Receipt" where
  "fish_receipt tid =
     \<lparr>transId = tid, receiptTable = 1, receiptLines = [(''Raw Fish'', 35)],
      receiptSubtotal = 35, receiptTip = 7, receiptTax = 7 / 2, receiptTotal = 91 / 2\<rparr>"

text \<open>Table 1 has one guest who ordered Raw Fish: placed, then completed, then paid.\<close>

definition s_placed :: state where
  "s_placed =
     \<lparr>tables = four_tables 1,
      orders = [(1, \<lparr>items = [RAW_FISH], isCompleted = False, isPaid = False\<rparr>)],
      receipts = [], randCalls = 0\<rparr>"

definition s_completed :: state where
  "s_completed =
     \<lparr>tables = four_tables 1,
      orders = [(1, \<lparr>items = [RAW_FISH], isCompleted = True, isPaid = False\<rparr>)],
      receipts = [], randCalls = 0\<rparr>"

definition s_paid :: state where
  "s_paid =
     \<lparr>tables = four_tables 0,
      orders = [(1, \<lparr>items = [RAW_FISH], isCompleted = True, isPaid = True\<rparr>)],
      receipts = [fish_receipt 6383], randCalls = 1\<rparr>"


text \<open>After \<open>s_paid\<close>, a guest sits down at table 2 and orders Raw Fish.\<close>

definition s_paid_and_pending :: state where
  "s_paid_and_pending =
     \<lparr>tables =
        [(1, \<lparr>capacity = 4, seatedGuests = 0\<rparr>), (2, \<lparr>capacity = 4, seatedGuests = 1\<rparr>),
         (3, \<lparr>capacity = 4, seatedGuests = 0\<rparr>), (4, \<lparr>capacity = 4, seatedGuests = 0\<rparr>)],
      orders =
        [(1, \<lparr>items = [RAW_FISH], isCompleted = True, isPaid = True\<rparr>),
         (2, \<lparr>items = [RAW_FISH], isCompleted = False, isPaid = False\<rparr>)],
      receipts = [fish_receipt 6383], randCalls = 1\<rparr>"

text \<open>After \<open>s_paid\<close>, a new guest sits down at table 1 and orders Eggs.\<close>

definition s_reordered :: state where
  "s_reordered =
     \<lparr>tables = four_tables 1,
      orders = [(1, \<lparr>items = [RAW_FISH, EGGS], isCompleted = True, isPaid = True\<rparr>)],
      receipts = [fish_receipt 6383], randCalls = 1\<rparr>"

text \<open>After \<open>s_reordered\<close>, a guest sits down at table 2 and orders Raw Fish.\<close>

definition s_reordered_and_pending :: state where
  "s_reordered_and_pending =
     \<lparr>tables =
        [(1, \<lparr>capacity = 4, seatedGuests = 1\<rparr>), (2, \<lparr>capacity = 4, seatedGuests = 1\<rparr>),
         (3, \<lparr>capacity = 4, seatedGuests = 0\<rparr>), (4, \<lparr>capacity = 4, seatedGuests = 0\<rparr>)],
      orders =
        [(1, \<lparr>items = [RAW_FISH, EGGS], isCompleted = True, isPaid = True\<rparr>),
         (2, \<lparr>items = [RAW_FISH], isCompleted = False, isPaid = False\<rparr>)],
      receipts = [fish_receipt 6383], randCalls = 1\<rparr>"

text \<open>
  A whole session, one menu choice per line: table 1 orders Raw Fish, is completed and
  paid; table 2 orders Raw Fish; table 1 is paid a second time; table 2 is completed and
  paid; the restaurant closes.
\<close>

definition session_pay_twice :: string where
  "session_pay_twice =
     ''1 1 1 1'' @ newline #
     ''2 1'' @ newline #
     ''3 1 y'' @ newline #
     ''1 2 1 1'' @ newline #
     ''3 1 y'' @ newline #
     ''2 2'' @ newline #
     ''3 2 y'' @ newline #
     ''4'' @ [newline]"

text \<open>The two invariants of the maps.\<close>

definition tables_ok :: "(int \<times> Table) list \<Rightarrow> bool" where
  "tables_ok tbls =
     (\<forall>(t, tb) \<in> set tbls.
        capacity tb = TABLE_CAPACITY \<and> 0 \<le> seatedGuests tb \<and> seatedGuests tb \<le> capacity tb)"

definition orders_ok :: "(int \<times> Order) list \<Rightarrow> bool" where
  "orders_ok ords = (\<forall>(t, order) \<in> set ords. isPaid order \<longrightarrow> isCompleted order)"

section \<open>Map lemmas\<close>

lemma set_map_put: "set (map_put k v m) \<subseteq> insert (k, v) (set m)"
  by (induction m) (auto split: if_splits)

lemma map_of_map_put: "map_of (map_put k v m) = (map_of m)(k \<mapsto> v)"
  by (induction m) (auto simp: fun_eq_iff)

lemma map_index_cases:
  "map_index m k d = (v, m') \<Longrightarrow>
     (map_of m k = Some v \<and> m' = m) \<or> (map_of m k = None \<and> v = d \<and> m' = map_put k d m)"
  by (auto simp: map_index_def split: option.splits)

section \<open>Input and the shape of each operation's result\<close>

lemma tolower_y: "tolower c = CHR ''y'' \<longleftrightarrow> c = CHR ''y'' \<or> c = CHR ''Y''"
proof -
  define n where "n = (of_char c :: nat)"
  have lt: "n < 256" unfolding n_def by simp
  have low: "(of_char (tolower c) :: nat) = (if 65 \<le> n \<and> n \<le> 90 then n + 32 else n)"
    using lt by (simp add: tolower_def Let_def n_def[symmetric])
  have "tolower c = CHR ''y'' \<longleftrightarrow> (of_char (tolower c) :: nat) = of_char (CHR ''y'')"
    by (simp only: of_char_eq_iff)
  also have "\<dots> \<longleftrightarrow> n = 121 \<or> n = 89"
    unfolding low by auto
  also have "n = 121 \<longleftrightarrow> c = CHR ''y''"
    unfolding n_def using of_char_eq_iff [of c "CHR ''y''", where ?'a = nat] by simp
  also have "n = 89 \<longleftrightarrow> c = CHR ''Y''"
    unfolding n_def using of_char_eq_iff [of c "CHR ''Y''", where ?'a = nat] by simp
  finally show ?thesis .
qed

lemma checkNum_eof: "dropWhile isspace inp = [] \<Longrightarrow> checkNum lo hi inp = None"
  by (subst checkNum.simps) simp

lemma checkNum_fail:
  "dropWhile isspace inp \<noteq> [] \<Longrightarrow> extract_int inp = (None, rest) \<Longrightarrow>
     checkNum lo hi inp = checkNum lo hi (ignore_line rest)"
  by (subst checkNum.simps) auto

lemma checkNum_reject:
  "dropWhile isspace inp \<noteq> [] \<Longrightarrow> extract_int inp = (Some val, rest) \<Longrightarrow>
     val < lo \<or> hi < val \<Longrightarrow> checkNum lo hi inp = checkNum lo hi (ignore_line rest)"
  by (subst checkNum.simps) auto

lemma checkNum_accept:
  "dropWhile isspace inp \<noteq> [] \<Longrightarrow> extract_int inp = (Some val, rest) \<Longrightarrow>
     lo \<le> val \<Longrightarrow> val \<le> hi \<Longrightarrow> checkNum lo hi inp = Some (val, rest)"
  by (subst checkNum.simps) auto


lemma checkNum_range: "checkNum lo hi inp = Some (v, rest) \<Longrightarrow> lo \<le> v \<and> v \<le> hi"
proof (induction lo hi inp rule: checkNum.induct)
  case (1 lo hi inp)
  have ne: "dropWhile isspace inp \<noteq> []"
    using "1.prems" checkNum_eof [of inp lo hi] by auto
  obtain r rest' where ex: "extract_int inp = (r, rest')"
    by (cases "extract_int inp")
  show ?case
  proof (cases r)
    case None
    with ne ex "1.prems" have "checkNum lo hi (ignore_line rest') = Some (v, rest)"
      by (simp add: checkNum_fail)
    with "1.IH"(1) [OF ne ex [symmetric] None] show ?thesis .
  next
    case (Some val)
    show ?thesis
    proof (cases "val < lo \<or> val > hi")
      case True
      with ne ex Some "1.prems" have "checkNum lo hi (ignore_line rest') = Some (v, rest)"
        by (simp add: checkNum_reject)
      with "1.IH"(2) [OF ne ex [symmetric] Some True] show ?thesis .
    next
      case False
      with ne ex Some "1.prems" have "v = val"
        by (simp add: checkNum_accept)
      with False show ?thesis by simp
    qed
  qed
qed

lemma allOrders_iff:
  "allOrdersPaidAndComplete m \<longleftrightarrow> (\<forall>(t, order) \<in> set m. isCompleted order \<and> isPaid order)"
  by (induction m rule: allOrdersPaidAndComplete.induct) auto

lemma placeOrder_SomeD:
  assumes "placeOrder s inp = Some (out, s', inp')"
  shows "\<exists>t inp1 tb tbls.
     checkNum 1 TABLE_QTY inp = Some (t, inp1) \<and>
     map_index (tables s) t Table_default = (tb, tbls) \<and>
     ((TABLE_CAPACITY - seatedGuests tb \<le> 0 \<and> out = TableIsFull t \<and>
       s' = s\<lparr>tables := tbls\<rparr> \<and> inp' = inp1) \<or>
      (0 < TABLE_CAPACITY - seatedGuests tb \<and>
       (\<exists>g inp2 its order ords.
          checkNum 1 (TABLE_CAPACITY - seatedGuests tb) inp1 = Some (g, inp2) \<and>
          readItems (nat g) inp2 = Some (its, inp') \<and>
          map_index (orders s) t Order_default = (order, ords) \<and>
          out = OrderPlaced t \<and>
          s' = s\<lparr>tables := map_put t (tb\<lparr>seatedGuests := seatedGuests tb + g\<rparr>) tbls,
                 orders := map_put t (order\<lparr>items := items order @ its\<rparr>) ords\<rparr>)))"
  using assms unfolding placeOrder_def Let_def
  by (auto split: option.splits prod.splits if_splits)

lemma completeOrder_SomeD:
  assumes "completeOrder s inp = Some (out, s', inp')"
  shows "s' = s \<or>
     (\<exists>t order. map_of (orders s) t = Some order \<and>
        s' = s\<lparr>orders := map_put t (order\<lparr>isCompleted := True\<rparr>) (orders s)\<rparr>)"
  using assms unfolding completeOrder_def
  by (auto split: option.splits prod.splits if_splits)

lemma payForOrder_SomeD:
  assumes "payForOrder rnd s inp = Some (out, s', inp')"
  shows "(s' = s \<and> (\<forall>b i. out \<noteq> PaymentSuccessful b i)) \<or>
     (\<exists>t inp1 order tb tbls r b i. checkNum 1 TABLE_QTY inp = Some (t, inp1) \<and>
        \<not> allOrdersPaidAndComplete (orders s) \<and>
        map_of (orders s) t = Some order \<and> isCompleted order \<and>
        map_index (tables s) t Table_default = (tb, tbls) \<and>
        out = PaymentSuccessful b i \<and>
        s' = s\<lparr>orders := map_put t (order\<lparr>isPaid := True\<rparr>) (orders s),
               tables := map_put t (tb\<lparr>seatedGuests := 0\<rparr>) tbls,
               receipts := receipts s @ [r],
               randCalls := Suc (randCalls s)\<rparr>)"
  using assms unfolding payForOrder_def checkOrderAndTableStatus_def Let_def
  by (auto split: option.splits prod.splits if_splits)

section \<open>The invariants hold in every reachable state\<close>

lemma tables_ok_put:
  "tables_ok m \<Longrightarrow> capacity v = TABLE_CAPACITY \<Longrightarrow> 0 \<le> seatedGuests v \<Longrightarrow>
   seatedGuests v \<le> TABLE_CAPACITY \<Longrightarrow> tables_ok (map_put k v m)"
  using set_map_put [of k v m] unfolding tables_ok_def by auto

lemma tables_ok_index:
  assumes "tables_ok m" "map_index m k Table_default = (tb, m')"
  shows "tables_ok m' \<and> capacity tb = TABLE_CAPACITY \<and> 0 \<le> seatedGuests tb \<and>
         seatedGuests tb \<le> TABLE_CAPACITY"
proof -
  from map_index_cases [OF assms(2)] show ?thesis
  proof
    assume a: "map_of m k = Some tb \<and> m' = m"
    then have "(k, tb) \<in> set m" by (auto dest: map_of_SomeD)
    with assms(1) a show ?thesis unfolding tables_ok_def by auto
  next
    assume a: "map_of m k = None \<and> tb = Table_default \<and> m' = map_put k Table_default m"
    have "tables_ok (map_put k Table_default m)"
      using assms(1) by (intro tables_ok_put) (simp_all add: Table_default_def TABLE_CAPACITY_def)
    with a show ?thesis by (simp add: Table_default_def TABLE_CAPACITY_def)
  qed
qed

lemma orders_ok_put:
  "orders_ok m \<Longrightarrow> (isPaid v \<longrightarrow> isCompleted v) \<Longrightarrow> orders_ok (map_put k v m)"
  using set_map_put [of k v m] unfolding orders_ok_def by auto

lemma orders_ok_index:
  assumes "orders_ok m" "map_index m k Order_default = (order, m')"
  shows "orders_ok m' \<and> (isPaid order \<longrightarrow> isCompleted order)"
proof -
  from map_index_cases [OF assms(2)] show ?thesis
  proof
    assume a: "map_of m k = Some order \<and> m' = m"
    then have "(k, order) \<in> set m" by (auto dest: map_of_SomeD)
    with assms(1) a show ?thesis unfolding orders_ok_def by auto
  next
    assume a: "map_of m k = None \<and> order = Order_default \<and> m' = map_put k Order_default m"
    have "orders_ok (map_put k Order_default m)"
      using assms(1) by (intro orders_ok_put) (simp_all add: Order_default_def)
    with a show ?thesis by (simp add: Order_default_def)
  qed
qed

lemma initial_tables:
  "tables initial_state =
     [(1, Table_default), (2, Table_default), (3, Table_default), (4, Table_default)]"
  by (simp add: initial_state_def initializeTables_def TABLE_QTY_def upto.simps)

lemma initial_ok: "tables_ok (tables initial_state) \<and> orders_ok (orders initial_state)"
  unfolding initial_tables
  by (simp add: initial_state_def tables_ok_def orders_ok_def Table_default_def TABLE_CAPACITY_def)

lemma placeOrder_ok:
  assumes "placeOrder s inp = Some (out, s', inp')" "tables_ok (tables s)" "orders_ok (orders s)"
  shows "tables_ok (tables s') \<and> orders_ok (orders s')"
proof -
  from placeOrder_SomeD [OF assms(1)] obtain t inp1 tb tbls where
    idx: "map_index (tables s) t Table_default = (tb, tbls)" and
    alt: "(TABLE_CAPACITY - seatedGuests tb \<le> 0 \<and> out = TableIsFull t \<and>
       s' = s\<lparr>tables := tbls\<rparr> \<and> inp' = inp1) \<or>
      (0 < TABLE_CAPACITY - seatedGuests tb \<and>
       (\<exists>g inp2 its order ords.
          checkNum 1 (TABLE_CAPACITY - seatedGuests tb) inp1 = Some (g, inp2) \<and>
          readItems (nat g) inp2 = Some (its, inp') \<and>
          map_index (orders s) t Order_default = (order, ords) \<and>
          out = OrderPlaced t \<and>
          s' = s\<lparr>tables := map_put t (tb\<lparr>seatedGuests := seatedGuests tb + g\<rparr>) tbls,
                 orders := map_put t (order\<lparr>items := items order @ its\<rparr>) ords\<rparr>))"
    by blast
  note tb = tables_ok_index [OF assms(2) idx]
  from alt show ?thesis
  proof
    assume "TABLE_CAPACITY - seatedGuests tb \<le> 0 \<and> out = TableIsFull t \<and>
       s' = s\<lparr>tables := tbls\<rparr> \<and> inp' = inp1"
    with tb assms(3) show ?thesis by simp
  next
    assume "0 < TABLE_CAPACITY - seatedGuests tb \<and>
       (\<exists>g inp2 its order ords.
          checkNum 1 (TABLE_CAPACITY - seatedGuests tb) inp1 = Some (g, inp2) \<and>
          readItems (nat g) inp2 = Some (its, inp') \<and>
          map_index (orders s) t Order_default = (order, ords) \<and>
          out = OrderPlaced t \<and>
          s' = s\<lparr>tables := map_put t (tb\<lparr>seatedGuests := seatedGuests tb + g\<rparr>) tbls,
                 orders := map_put t (order\<lparr>items := items order @ its\<rparr>) ords\<rparr>)"
    then obtain g inp2 its order ords where
      g: "checkNum 1 (TABLE_CAPACITY - seatedGuests tb) inp1 = Some (g, inp2)" and
      oi: "map_index (orders s) t Order_default = (order, ords)" and
      s': "s' = s\<lparr>tables := map_put t (tb\<lparr>seatedGuests := seatedGuests tb + g\<rparr>) tbls,
                 orders := map_put t (order\<lparr>items := items order @ its\<rparr>) ords\<rparr>"
      by blast
    from checkNum_range [OF g] have gr: "1 \<le> g" "g \<le> TABLE_CAPACITY - seatedGuests tb" by auto
    have t: "tables_ok (map_put t (tb\<lparr>seatedGuests := seatedGuests tb + g\<rparr>) tbls)"
      using tb gr by (intro tables_ok_put) auto
    have o: "orders_ok (map_put t (order\<lparr>items := items order @ its\<rparr>) ords)"
      using orders_ok_index [OF assms(3) oi] by (intro orders_ok_put) auto
    from t o s' show ?thesis by simp
  qed
qed

lemma completeOrder_ok:
  assumes "completeOrder s inp = Some (out, s', inp')" "tables_ok (tables s)" "orders_ok (orders s)"
  shows "tables_ok (tables s') \<and> orders_ok (orders s')"
  using completeOrder_SomeD [OF assms(1)] assms(2,3)
  by (auto intro!: orders_ok_put)

lemma payForOrder_ok:
  assumes "payForOrder rnd s inp = Some (out, s', inp')" "tables_ok (tables s)" "orders_ok (orders s)"
  shows "tables_ok (tables s') \<and> orders_ok (orders s')"
proof -
  from payForOrder_SomeD [OF assms(1)] show ?thesis
  proof
    assume "s' = s \<and> (\<forall>b i. out \<noteq> PaymentSuccessful b i)"
    with assms show ?thesis by simp
  next
    assume "\<exists>t inp1 order tb tbls r b i. checkNum 1 TABLE_QTY inp = Some (t, inp1) \<and>
        \<not> allOrdersPaidAndComplete (orders s) \<and>
        map_of (orders s) t = Some order \<and> isCompleted order \<and>
        map_index (tables s) t Table_default = (tb, tbls) \<and>
        out = PaymentSuccessful b i \<and>
        s' = s\<lparr>orders := map_put t (order\<lparr>isPaid := True\<rparr>) (orders s),
               tables := map_put t (tb\<lparr>seatedGuests := 0\<rparr>) tbls,
               receipts := receipts s @ [r],
               randCalls := Suc (randCalls s)\<rparr>"
    then obtain t order tb tbls r where
      c: "isCompleted order" and
      idx: "map_index (tables s) t Table_default = (tb, tbls)" and
      s': "s' = s\<lparr>orders := map_put t (order\<lparr>isPaid := True\<rparr>) (orders s),
               tables := map_put t (tb\<lparr>seatedGuests := 0\<rparr>) tbls,
               receipts := receipts s @ [r],
               randCalls := Suc (randCalls s)\<rparr>"
      by blast
    have t: "tables_ok (map_put t (tb\<lparr>seatedGuests := 0\<rparr>) tbls)"
      using tables_ok_index [OF assms(2) idx]
      by (intro tables_ok_put) (auto simp: TABLE_CAPACITY_def)
    have o: "orders_ok (map_put t (order\<lparr>isPaid := True\<rparr>) (orders s))"
      using assms(3) c by (intro orders_ok_put) auto
    from t o s' show ?thesis by simp
  qed
qed

lemma reachable_ok: "reachable s \<Longrightarrow> tables_ok (tables s) \<and> orders_ok (orders s)"
proof (induction rule: reachable.induct)
  case init
  show ?case by (rule initial_ok)
next
  case (place s inp out s' inp')
  then show ?case using placeOrder_ok by blast
next
  case (complete s inp out s' inp')
  then show ?case using completeOrder_ok by blast
next
  case (pay s rnd inp out s' inp')
  then show ?case using payForOrder_ok by blast
qed

section \<open>The example sessions, step by step\<close>

lemmas op_defs = placeOrder_def completeOrder_def payForOrder_def checkOrderAndTableStatus_def
  map_index_def Let_def TABLE_QTY_def TABLE_CAPACITY_def Table_default_def Order_default_def
  Entrees_of_int_def four_tables_def fish_receipt_def fish_bill_def

lemmas input_defs = checkNum.simps extract_int_def extract_char_def ignore_line_def isspace_def
  isdigit_def digit_value_def newline_def

lemma bill_fish: "computeBill [RAW_FISH] = fish_bill"
  unfolding fish_bill_def by code_simp

lemma bill_fish_eggs:
  "computeBill [RAW_FISH, EGGS] = \<lparr>subtotal = 80, tax = 8, tip = 16, total = 104\<rparr>"
  by code_simp

lemma initial_state_eq:
  "initial_state = \<lparr>tables = four_tables 0, orders = [], receipts = [], randCalls = 0\<rparr>"
  by (simp add: initial_state_def initializeTables_def TABLE_QTY_def upto.simps four_tables_def
      Table_default_def TABLE_CAPACITY_def)

lemma step_place: "placeOrder initial_state ''1 1 1'' = Some (OrderPlaced 1, s_placed, [])"
  by (simp add: initial_state_eq s_placed_def op_defs input_defs)

lemma step_complete: "completeOrder s_placed ''1'' = Some (MarkedComplete 1, s_completed, [])"
  by (simp add: s_placed_def s_completed_def op_defs input_defs)

lemma step_pay:
  "payForOrder rand_example s_completed ''1 y'' =
     Some (PaymentSuccessful fish_bill 6383, s_paid, [])"
  by (simp add: s_completed_def s_paid_def op_defs input_defs bill_fish tolower_y rand_example_def)

lemma step_place2:
  "placeOrder s_paid ''2 1 1'' = Some (OrderPlaced 2, s_paid_and_pending, [])"
  by (simp add: s_paid_def s_paid_and_pending_def op_defs input_defs)

lemma step_reorder:
  "placeOrder s_paid ''1 1 2'' = Some (OrderPlaced 1, s_reordered, [])"
  by (simp add: s_paid_def s_reordered_def op_defs input_defs)

lemma step_reorder_place2:
  "placeOrder s_reordered ''2 1 1'' = Some (OrderPlaced 2, s_reordered_and_pending, [])"
  by (simp add: s_reordered_def s_reordered_and_pending_def op_defs input_defs)


lemma reachable_s_placed: "reachable s_placed"
  using reachable.place [OF reachable.init step_place] .

lemma reachable_s_completed: "reachable s_completed"
  using reachable.complete [OF reachable_s_placed step_complete] .

lemma reachable_s_paid: "reachable s_paid"
  using reachable.pay [OF reachable_s_completed step_pay] .

lemma reachable_s_paid_and_pending: "reachable s_paid_and_pending"
  using reachable.place [OF reachable_s_paid step_place2] .

lemma reachable_s_reordered: "reachable s_reordered"
  using reachable.place [OF reachable_s_paid step_reorder] .

lemma reachable_s_reordered_and_pending: "reachable s_reordered_and_pending"
  using reachable.place [OF reachable_s_reordered step_reorder_place2] .


lemma run_pay_twice:
  "map_option (\<lambda>(outs, final). (outs, map receiptTable (receipts final)))
     (main rand_example session_pay_twice) =
     Some ([OrderPlaced 1, MarkedComplete 1, PaymentSuccessful fish_bill 6383, OrderPlaced 2,
            PaymentSuccessful fish_bill 4886, MarkedComplete 2, PaymentSuccessful fish_bill 7777,
            Goodbye],
           [1, 1, 2])"
  by (simp add: main_def session_pay_twice_def main_loop.simps main_iteration_def in_service_def
      canClose_def initial_state_eq op_defs input_defs bill_fish tolower_y rand_example_def)

section \<open>Further lemmas about the operations\<close>

lemma checkTableStatus_mem:
  assumes "1 \<le> t" "t \<le> TABLE_QTY" "map_of ords t = Some order"
  shows "(t, statusOf order) \<in> set (checkTableStatus ords)"
proof -
  have "t \<in> set [1..TABLE_QTY]" using assms(1,2) by simp
  then show ?thesis
    unfolding checkTableStatus_def using assms(3) by (auto intro!: bexI [of _ t])
qed

lemma allOrders_put:
  assumes "allOrdersPaidAndComplete m" "isCompleted v" "isPaid v"
  shows "allOrdersPaidAndComplete (map_put k v m)"
  using assms set_map_put [of k v m] unfolding allOrders_iff by auto

lemma map_index_tables:
  "map_index m k d = (v, m') \<Longrightarrow> map_of (map_put k w m') = (map_of m)(k \<mapsto> w)"
  by (auto simp: map_index_def map_of_map_put split: option.splits)

text \<open>
  A further order on a table whose order is completed and paid, with the seats reset to 0,
  succeeds: the new guests are seated and the new items are appended to the existing order
  record, whose two flags stay true. While every order of the book is settled,
  \<open>payForOrder\<close> computes no bill.
\<close>

lemma order_on_settled_table_appends:
  assumes "map_of (orders s) t = Some order" and "isCompleted order" and "isPaid order"
    and "map_of (tables s) t = Some table" and "seatedGuests table = 0"
    and "checkNum 1 TABLE_QTY inp = Some (t, inp1)"
    and "checkNum 1 TABLE_CAPACITY inp1 = Some (guests, inp2)"
    and "readItems (nat guests) inp2 = Some (its, inp3)"
    and "s' = s\<lparr>tables := map_put t (table\<lparr>seatedGuests := guests\<rparr>) (tables s),
                 orders := map_put t (order\<lparr>items := items order @ its\<rparr>) (orders s)\<rparr>"
  shows "placeOrder s inp = Some (OrderPlaced t, s', inp3) \<and>
         (\<exists>table'. map_of (tables s') t = Some table' \<and> seatedGuests table' = guests) \<and>
         (\<exists>order'. map_of (orders s') t = Some order' \<and> items order' = items order @ its \<and>
                    isCompleted order' \<and> isPaid order' \<and> statusOf order' = AllDone) \<and>
         (allOrdersPaidAndComplete (orders s) \<longrightarrow>
            allOrdersPaidAndComplete (orders s') \<and>
            payForOrder rnd s' inp4 = Some (NoPendingOrders, s', inp4))"
proof (intro conjI impI)
  have ti: "map_index (tables s) t Table_default = (table, tables s)"
    using assms(4) by (simp add: map_index_def)
  have oi: "map_index (orders s) t Order_default = (order, orders s)"
    using assms(1) by (simp add: map_index_def)
  show "placeOrder s inp = Some (OrderPlaced t, s', inp3)"
    using assms(5-9) ti oi by (simp add: placeOrder_def TABLE_CAPACITY_def)
  show "\<exists>table'. map_of (tables s') t = Some table' \<and> seatedGuests table' = guests"
    by (simp add: assms(9) map_of_map_put)
  show "\<exists>order'. map_of (orders s') t = Some order' \<and> items order' = items order @ its \<and>
                    isCompleted order' \<and> isPaid order' \<and> statusOf order' = AllDone"
    using assms(2,3) by (simp add: assms(9) map_of_map_put statusOf_def)
  {
    assume "allOrdersPaidAndComplete (orders s)"
    then show all: "allOrdersPaidAndComplete (orders s')"
      using assms(2,3) by (simp add: assms(9) allOrders_put)
    then show "payForOrder rnd s' inp4 = Some (NoPendingOrders, s', inp4)"
      by (simp add: payForOrder_def checkOrderAndTableStatus_def)
  }
qed

section \<open>The claims\<close>

text \<open>
  C1. The restaurant can be closed exactly when at least one order exists and every
  existing order is completed and paid: \<open>canClose\<close> is false when the order book is empty
  (orders are never removed, so that is when no order has ever been placed), false when
  some order lacks \<open>isCompleted && isPaid\<close>, and true only when there is an order and all
  are settled. Menu option 4 ends the program exactly then.
\<close>

theorem canClose_characterised:
  "(orders s = [] \<longrightarrow> \<not> canClose s) \<and>
   ((\<exists>(t, order) \<in> set (orders s). \<not> (isCompleted order \<and> isPaid order)) \<longrightarrow> \<not> canClose s) \<and>
   (canClose s \<longleftrightarrow>
      orders s \<noteq> [] \<and> (\<forall>(t, order) \<in> set (orders s). isCompleted order \<and> isPaid order)) \<and>
   (checkNum 1 4 inp = Some (4, rest) \<longrightarrow>
      main_iteration rnd s inp =
        Some (if canClose s then (Goodbye, s, rest, False) else (CannotClose, s, rest, True)))"
  by (auto simp: canClose_def allOrders_iff main_iteration_def)

theorem canClose_characterised_witness:
  "\<not> canClose initial_state \<and> \<not> canClose s_completed \<and> canClose s_paid \<and>
   main_iteration rand_example s_paid ''4'' = Some (Goodbye, s_paid, [], False) \<and>
   main_iteration rand_example s_completed ''4'' = Some (CannotClose, s_completed, [], True)"
proof -
  have 4: "checkNum 1 4 ''4'' = Some (4, [])"
    by (simp add: input_defs)
  from canClose_characterised [of s_paid "''4''" "[]" rand_example]
    canClose_characterised [of initial_state "''4''" "[]" rand_example]
    canClose_characterised [of s_completed "''4''" "[]" rand_example] 4
  show ?thesis
    by (simp add: s_paid_def s_completed_def initial_state_eq)
qed

text \<open>
  C2. For every table whose order is not completed, a payment attempt on that table (the
  table number that \<open>checkNum\<close> accepts), made directly or through option 3 of the main
  menu, is refused as not completed; the state is unchanged and the order is still unpaid.
\<close>

theorem pay_before_complete_fails:
  assumes "reachable s"
    and "map_of (orders s) t = Some order"
    and "\<not> isCompleted order"
    and "checkNum 1 TABLE_QTY inp = Some (t, rest)"
  shows "payForOrder rnd s inp = Some (NotCompleted t, s, rest) \<and>
         (checkNum 1 4 inp0 = Some (3, inp) \<longrightarrow>
            main_iteration rnd s inp0 = Some (NotCompleted t, s, rest, True)) \<and>
         \<not> isPaid order"
proof -
  have mem: "(t, order) \<in> set (orders s)"
    using assms(2) by (rule map_of_SomeD)
  with assms(3) have pending: "\<not> allOrdersPaidAndComplete (orders s)"
    by (auto simp: allOrders_iff)
  from mem have nonempty: "orders s \<noteq> []"
    by auto
  from checkNum_range [OF assms(4)] have "t \<noteq> - 1"
    by simp
  with pending assms(2,3,4) have pay: "payForOrder rnd s inp = Some (NotCompleted t, s, rest)"
    by (simp add: payForOrder_def checkOrderAndTableStatus_def)
  with pending nonempty
  have "checkNum 1 4 inp0 = Some (3, inp) \<longrightarrow>
          main_iteration rnd s inp0 = Some (NotCompleted t, s, rest, True)"
    by (simp add: main_iteration_def in_service_def)
  moreover from reachable_ok [OF assms(1)] mem assms(3) have "\<not> isPaid order"
    by (auto simp: orders_ok_def)
  ultimately show ?thesis using pay by simp
qed

theorem pay_before_complete_fails_witness:
  "payForOrder rand_example s_placed ''1 y'' = Some (NotCompleted 1, s_placed, '' y'') \<and>
   main_iteration rand_example s_placed ''3 1 y'' = Some (NotCompleted 1, s_placed, '' y'', True) \<and>
   \<not> isPaid \<lparr>items = [RAW_FISH], isCompleted = False, isPaid = False\<rparr>"
proof -
  have 1: "map_of (orders s_placed) 1 = Some \<lparr>items = [RAW_FISH], isCompleted = False, isPaid = False\<rparr>"
    by (simp add: s_placed_def)
  have 2: "\<not> isCompleted \<lparr>items = [RAW_FISH], isCompleted = False, isPaid = False\<rparr>"
    by simp
  have 3: "checkNum 1 TABLE_QTY ''1 y'' = Some (1, '' y'')"
    by (simp add: TABLE_QTY_def input_defs)
  have 4: "checkNum 1 4 ''3 1 y'' = Some (3, '' 1 y'')"
    by (simp add: input_defs)
  have 5: "checkNum 1 TABLE_QTY '' 1 y'' = Some (1, '' y'')"
    by (simp add: TABLE_QTY_def input_defs)
  from pay_before_complete_fails [OF reachable_s_placed 1 2 3, of rand_example]
    pay_before_complete_fails [OF reachable_s_placed 1 2 5, of rand_example "''3 1 y''"] 4
  show ?thesis by simp
qed

text \<open>
  C3. The claim: a second payment attempt on a table whose order is already completed and
  paid is refused as already paid. \<open>payForOrder\<close> has a guard for \<open>isCompleted\<close> but none
  for \<open>isPaid\<close>: it refuses only when every order of the book is settled. With another
  table's order pending, the paid order of table 1 is billed and paid again and a second
  receipt is written; the whole session runs through \<open>main\<close>.
\<close>

theorem second_payment_of_paid_order_accepted:
  "reachable s_paid_and_pending \<and>
   map_of (orders s_paid_and_pending) 1 =
     Some \<lparr>items = [RAW_FISH], isCompleted = True, isPaid = True\<rparr> \<and>
   map_option (\<lambda>(out, s', inp'). (out, map receiptTable (receipts s')))
     (payForOrder rand_example s_paid_and_pending ''1 y'') =
     Some (PaymentSuccessful fish_bill 4886, [1, 1]) \<and>
   map_option (\<lambda>(outs, final). (outs, map receiptTable (receipts final)))
     (main rand_example session_pay_twice) =
     Some ([OrderPlaced 1, MarkedComplete 1, PaymentSuccessful fish_bill 6383, OrderPlaced 2,
            PaymentSuccessful fish_bill 4886, MarkedComplete 2, PaymentSuccessful fish_bill 7777,
            Goodbye],
           [1, 1, 2])"
proof (intro conjI)
  show "reachable s_paid_and_pending"
    by (rule reachable_s_paid_and_pending)
  show "map_of (orders s_paid_and_pending) 1 =
     Some \<lparr>items = [RAW_FISH], isCompleted = True, isPaid = True\<rparr>"
    by (simp add: s_paid_and_pending_def)
  show "map_option (\<lambda>(out, s', inp'). (out, map receiptTable (receipts s')))
     (payForOrder rand_example s_paid_and_pending ''1 y'') =
     Some (PaymentSuccessful fish_bill 4886, [1, 1])"
    by (simp add: s_paid_and_pending_def op_defs input_defs bill_fish tolower_y rand_example_def)
  show "map_option (\<lambda>(outs, final). (outs, map receiptTable (receipts final)))
     (main rand_example session_pay_twice) =
     Some ([OrderPlaced 1, MarkedComplete 1, PaymentSuccessful fish_bill 6383, OrderPlaced 2,
            PaymentSuccessful fish_bill 4886, MarkedComplete 2, PaymentSuccessful fish_bill 7777,
            Goodbye],
           [1, 1, 2])"
    by (rule run_pay_twice)
qed

text \<open>
  C4. After every sequence of operations (place order, complete order, pay), every table
  has \<open>0 \<le> seatedGuests \<le> capacity\<close>.
\<close>

theorem seatedGuests_within_capacity:
  "reachable s \<Longrightarrow>
     \<forall>(t, table) \<in> set (tables s). 0 \<le> seatedGuests table \<and> seatedGuests table \<le> capacity table"
  using reachable_ok [of s] by (auto simp: tables_ok_def)

theorem seatedGuests_within_capacity_witness:
  "reachable s_placed \<and>
   list_all (\<lambda>(t, table). 0 \<le> seatedGuests table \<and> seatedGuests table \<le> capacity table)
     (tables s_placed) \<and>
   map_of (tables s_placed) 1 = Some \<lparr>capacity = 4, seatedGuests = 1\<rparr>"
  using seatedGuests_within_capacity [OF reachable_s_placed] reachable_s_placed
  by (simp add: list_all_iff) (simp add: s_placed_def four_tables_def)




text \<open>
  C6. A payment succeeds when some order is pending, the chosen table's order is completed
  and the answer at the confirmation prompt is \<open>y\<close> or \<open>Y\<close>. Immediately after a
  successful payment that table's \<open>seatedGuests\<close> is exactly 0, the other tables are
  unchanged, and the order has both flags set, so \<open>checkTableStatus\<close> reports it as
  "all done".
\<close>

theorem payment_resets_seats_and_settles:
  assumes "checkNum 1 TABLE_QTY inp = Some (t, inp1)"
  shows "(\<not> allOrdersPaidAndComplete (orders s) \<and> map_of (orders s) t = Some order \<and>
          isCompleted order \<and> extract_char inp1 = Some (answer, rest) \<and>
          (answer = CHR ''y'' \<or> answer = CHR ''Y'') \<longrightarrow>
            (\<exists>s1. payForOrder rnd s inp =
                    Some (PaymentSuccessful (computeBill (items order))
                            (int (rnd (randCalls s) mod 9000) + 1000), s1, rest) \<and>
                  (\<exists>table1. map_of (tables s1) t = Some table1 \<and> seatedGuests table1 = 0) \<and>
                  (\<forall>k. k \<noteq> t \<longrightarrow> map_of (tables s1) k = map_of (tables s) k) \<and>
                  map_of (orders s1) = (map_of (orders s))(t \<mapsto> order\<lparr>isPaid := True\<rparr>) \<and>
                  (t, AllDone) \<in> set (checkTableStatus (orders s1)))) \<and>
         (payForOrder rnd s inp = Some (PaymentSuccessful bill tid, s', inp') \<longrightarrow>
            (\<exists>table'. map_of (tables s') t = Some table' \<and> seatedGuests table' = 0) \<and>
            (\<exists>order'. map_of (orders s') t = Some order' \<and> isCompleted order' \<and>
                       isPaid order' \<and> statusOf order' = AllDone) \<and>
            (t, AllDone) \<in> set (checkTableStatus (orders s')))"
proof (intro conjI impI)
  from checkNum_range [OF assms] have range: "1 \<le> t" "t \<le> TABLE_QTY" by auto
  {
    assume a: "\<not> allOrdersPaidAndComplete (orders s) \<and> map_of (orders s) t = Some order \<and>
          isCompleted order \<and> extract_char inp1 = Some (answer, rest) \<and>
          (answer = CHR ''y'' \<or> answer = CHR ''Y'')"
    obtain tb tbls where ti: "map_index (tables s) t Table_default = (tb, tbls)"
      by (cases "map_index (tables s) t Table_default")
    define s1 where "s1 = s\<lparr>orders := map_put t (order\<lparr>isPaid := True\<rparr>) (orders s),
        tables := map_put t (tb\<lparr>seatedGuests := 0\<rparr>) tbls,
        receipts := receipts s @
          [\<lparr>transId = int (rnd (randCalls s) mod 9000) + 1000, receiptTable = t,
            receiptLines = map (\<lambda>item. (entreeNames item, entreePrices item)) (items order),
            receiptSubtotal = subtotal (computeBill (items order)),
            receiptTip = tip (computeBill (items order)),
            receiptTax = tax (computeBill (items order)),
            receiptTotal = total (computeBill (items order))\<rparr>],
        randCalls := Suc (randCalls s)\<rparr>"
    from a have low: "tolower answer = CHR ''y''"
      by (simp add: tolower_y)
    from range have "t \<noteq> - 1" by simp
    with a low assms ti
    have pay: "payForOrder rnd s inp =
        Some (PaymentSuccessful (computeBill (items order))
                (int (rnd (randCalls s) mod 9000) + 1000), s1, rest)"
      by (simp add: payForOrder_def checkOrderAndTableStatus_def Let_def s1_def)
    have tab: "map_of (tables s1) = (map_of (tables s))(t \<mapsto> tb\<lparr>seatedGuests := 0\<rparr>)"
      using map_index_tables [OF ti] by (simp add: s1_def)
    have ord: "map_of (orders s1) = (map_of (orders s))(t \<mapsto> order\<lparr>isPaid := True\<rparr>)"
      by (simp add: s1_def map_of_map_put)
    have st: "statusOf (order\<lparr>isPaid := True\<rparr>) = AllDone"
      using a by (simp add: statusOf_def)
    have "map_of (orders s1) t = Some (order\<lparr>isPaid := True\<rparr>)"
      by (simp add: ord)
    from checkTableStatus_mem [OF range this] st
    have reported: "(t, AllDone) \<in> set (checkTableStatus (orders s1))" by simp
    show "\<exists>s1. payForOrder rnd s inp =
                    Some (PaymentSuccessful (computeBill (items order))
                            (int (rnd (randCalls s) mod 9000) + 1000), s1, rest) \<and>
                  (\<exists>table1. map_of (tables s1) t = Some table1 \<and> seatedGuests table1 = 0) \<and>
                  (\<forall>k. k \<noteq> t \<longrightarrow> map_of (tables s1) k = map_of (tables s) k) \<and>
                  map_of (orders s1) = (map_of (orders s))(t \<mapsto> order\<lparr>isPaid := True\<rparr>) \<and>
                  (t, AllDone) \<in> set (checkTableStatus (orders s1))"
      using pay tab ord reported by (intro exI [of _ s1]) simp
  }
  {
    assume p: "payForOrder rnd s inp = Some (PaymentSuccessful bill tid, s', inp')"
    from payForOrder_SomeD [OF p] assms obtain order tb tbls r where
      c: "isCompleted order" and
      s': "s' = s\<lparr>orders := map_put t (order\<lparr>isPaid := True\<rparr>) (orders s),
               tables := map_put t (tb\<lparr>seatedGuests := 0\<rparr>) tbls,
               receipts := receipts s @ [r],
               randCalls := Suc (randCalls s)\<rparr>"
      by auto
    have tab: "map_of (tables s') t = Some (tb\<lparr>seatedGuests := 0\<rparr>)"
      by (simp add: s' map_of_map_put)
    have ord: "map_of (orders s') t = Some (order\<lparr>isPaid := True\<rparr>)"
      by (simp add: s' map_of_map_put)
    have st: "statusOf (order\<lparr>isPaid := True\<rparr>) = AllDone"
      using c by (simp add: statusOf_def)
    from tab show "\<exists>table'. map_of (tables s') t = Some table' \<and> seatedGuests table' = 0"
      by simp
    from ord st c show "\<exists>order'. map_of (orders s') t = Some order' \<and> isCompleted order' \<and>
                       isPaid order' \<and> statusOf order' = AllDone"
      by simp
    from checkTableStatus_mem [OF range ord] st
    show "(t, AllDone) \<in> set (checkTableStatus (orders s'))" by simp
  }
qed

theorem payment_resets_seats_and_settles_witness:
  "map_of (tables s_completed) 1 = Some \<lparr>capacity = 4, seatedGuests = 1\<rparr> \<and>
   payForOrder rand_example s_completed ''1 y'' =
     Some (PaymentSuccessful fish_bill 6383, s_paid, []) \<and>
   map_of (tables s_paid) 1 = Some \<lparr>capacity = 4, seatedGuests = 0\<rparr> \<and>
   map_of (orders s_paid) 1 = Some \<lparr>items = [RAW_FISH], isCompleted = True, isPaid = True\<rparr> \<and>
   (1, AllDone) \<in> set (checkTableStatus (orders s_paid))"
proof -
  have 1: "checkNum 1 TABLE_QTY ''1 y'' = Some (1, '' y'')"
    by (simp add: TABLE_QTY_def input_defs)
  have 2: "\<not> allOrdersPaidAndComplete (orders s_completed)"
    by (simp add: s_completed_def)
  have 3: "map_of (orders s_completed) 1 =
      Some \<lparr>items = [RAW_FISH], isCompleted = True, isPaid = False\<rparr>"
    by (simp add: s_completed_def)
  have 4: "extract_char '' y'' = Some (CHR ''y'', [])"
    by (simp add: input_defs)
  from payment_resets_seats_and_settles [OF 1,
      of s_completed "\<lparr>items = [RAW_FISH], isCompleted = True, isPaid = False\<rparr>" "CHR ''y''" "[]"
         rand_example fish_bill 6383 s_paid "[]"] 2 3 4 step_pay
  have "(\<exists>table'. map_of (tables s_paid) 1 = Some table' \<and> seatedGuests table' = 0) \<and>
        (1, AllDone) \<in> set (checkTableStatus (orders s_paid))"
    by simp
  with step_pay show ?thesis
    by (simp add: s_paid_def s_completed_def four_tables_def)
qed

text \<open>
  C7. In every reachable state every order that is paid is also completed.
\<close>

theorem paid_implies_completed:
  "reachable s \<Longrightarrow> \<forall>(t, order) \<in> set (orders s). isPaid order \<longrightarrow> isCompleted order"
  using reachable_ok [of s] by (auto simp: orders_ok_def)

theorem paid_implies_completed_witness:
  "reachable s_paid \<and> (1, \<lparr>items = [RAW_FISH], isCompleted = True, isPaid = True\<rparr>) \<in> set (orders s_paid) \<and>
   list_all (\<lambda>(t, order). isCompleted order \<or> \<not> isPaid order) (orders s_paid)"
  using paid_implies_completed [OF reachable_s_paid] reachable_s_paid
  by (auto simp: list_all_iff) (simp add: s_paid_def)

text \<open>
  C8. For an order of two items priced 35 and 45 the bill, computed in \<open>double\<close>
  arithmetic with the rates 0.10 and 0.20, is subtotal 80, tax 8.00, tip 16.00 and
  total 104.00, all exactly.
\<close>

theorem bill_35_and_45:
  assumes "entreePrices a = 35" and "entreePrices b = 45"
  shows "computeBill [a, b] = \<lparr>subtotal = 80, tax = 8, tip = 16, total = 104\<rparr>"
proof -
  from assms(1) have a: "a = RAW_FISH" by (cases a) simp_all
  from assms(2) have b: "b = EGGS" by (cases b) simp_all
  show ?thesis unfolding a b by (rule bill_fish_eggs)
qed

theorem bill_35_and_45_witness:
  "entreePrices RAW_FISH = 35 \<and> entreePrices EGGS = 45 \<and>
   computeBill [RAW_FISH, EGGS] = \<lparr>subtotal = 80, tax = 8, tip = 16, total = 104\<rparr>"
  using bill_35_and_45 [of RAW_FISH EGGS] by simp

text \<open>
  C9. If the character read at the confirmation prompt (the first one that is not white
  space) is anything other than \<open>y\<close> or \<open>Y\<close>, the payment is cancelled and the whole state
  is the one before the attempt: the order's flags and items, the table's \<open>seatedGuests\<close>
  and the receipts written are unchanged.
\<close>

theorem unconfirmed_payment_changes_nothing:
  assumes "checkNum 1 TABLE_QTY inp = Some (t, inp1)"
    and "extract_char inp1 = Some (answer, rest)"
    and "answer \<noteq> CHR ''y''" and "answer \<noteq> CHR ''Y''"
    and "\<not> allOrdersPaidAndComplete (orders s)"
    and "map_of (orders s) t = Some order" and "isCompleted order"
  shows "payForOrder rnd s inp = Some (PaymentCancelled (computeBill (items order)), s, rest)"
proof -
  from checkNum_range [OF assms(1)] have "t \<noteq> - 1" by simp
  moreover from assms(3,4) have "tolower answer \<noteq> CHR ''y''" by (simp add: tolower_y)
  ultimately show ?thesis
    using assms(1,2,5,6,7) by (simp add: payForOrder_def checkOrderAndTableStatus_def)
qed

theorem unconfirmed_payment_changes_nothing_witness:
  "payForOrder rand_example s_completed (''1'' @ newline # ''no'' @ [newline]) =
     Some (PaymentCancelled fish_bill, s_completed, ''o'' @ [newline]) \<and>
   payForOrder rand_example s_completed (''1'' @ newline # ''12'' @ [newline]) =
     Some (PaymentCancelled fish_bill, s_completed, ''2'' @ [newline]) \<and>
   receipts s_completed = [] \<and>
   orders s_completed = [(1, \<lparr>items = [RAW_FISH], isCompleted = True, isPaid = False\<rparr>)]"
proof -
  have 1: "checkNum 1 TABLE_QTY (''1'' @ newline # ''no'' @ [newline]) =
      Some (1, newline # ''no'' @ [newline])"
    by (simp add: TABLE_QTY_def input_defs)
  have 2: "extract_char (newline # ''no'' @ [newline]) = Some (CHR ''n'', ''o'' @ [newline])"
    by (simp add: input_defs)
  have 3: "checkNum 1 TABLE_QTY (''1'' @ newline # ''12'' @ [newline]) =
      Some (1, newline # ''12'' @ [newline])"
    by (simp add: TABLE_QTY_def input_defs)
  have 4: "extract_char (newline # ''12'' @ [newline]) = Some (CHR ''1'', ''2'' @ [newline])"
    by (simp add: input_defs)
  have 5: "\<not> allOrdersPaidAndComplete (orders s_completed)"
    by (simp add: s_completed_def)
  have 6: "map_of (orders s_completed) 1 =
      Some \<lparr>items = [RAW_FISH], isCompleted = True, isPaid = False\<rparr>"
    by (simp add: s_completed_def)
  from unconfirmed_payment_changes_nothing [OF 1 2 _ _ 5 6, of rand_example]
    unconfirmed_payment_changes_nothing [OF 3 4 _ _ 5 6, of rand_example]
  show ?thesis by (simp add: bill_fish) (simp add: s_completed_def)
qed

text \<open>
  C10. The claim: items appended to an already settled order are never billed. After
  table 1 has paid for Raw Fish, a new guest at table 1 orders Eggs, which are appended to
  the settled order. While every order is settled, a payment attempt is refused. Once
  table 2 has a pending order, \<open>payForOrder\<close> accepts table 1 again, for want of a guard on
  \<open>isPaid\<close>, and its bill covers the Raw Fish a second time and the appended Eggs.
\<close>

theorem appended_items_billed_on_second_payment:
  "reachable s_paid \<and>
   map_of (orders s_paid) 1 = Some \<lparr>items = [RAW_FISH], isCompleted = True, isPaid = True\<rparr> \<and>
   map_of (tables s_paid) 1 = Some \<lparr>capacity = 4, seatedGuests = 0\<rparr> \<and>
   placeOrder s_paid ''1 1 2'' = Some (OrderPlaced 1, s_reordered, []) \<and>
   map_of (orders s_reordered) 1 =
     Some \<lparr>items = [RAW_FISH, EGGS], isCompleted = True, isPaid = True\<rparr> \<and>
   payForOrder rand_example s_reordered ''1 y'' = Some (NoPendingOrders, s_reordered, ''1 y'') \<and>
   placeOrder s_reordered ''2 1 1'' = Some (OrderPlaced 2, s_reordered_and_pending, []) \<and>
   map_option (\<lambda>(out, s', inp'). (out, receiptLines (last (receipts s'))))
     (payForOrder rand_example s_reordered_and_pending ''1 y'') =
     Some (PaymentSuccessful \<lparr>subtotal = 80, tax = 8, tip = 16, total = 104\<rparr> 4886,
           [(''Raw Fish'', 35), (''Eggs'', 45)])"
proof (intro conjI)
  show "reachable s_paid" by (rule reachable_s_paid)
  show "map_of (orders s_paid) 1 = Some \<lparr>items = [RAW_FISH], isCompleted = True, isPaid = True\<rparr>"
    by (simp add: s_paid_def)
  show "map_of (tables s_paid) 1 = Some \<lparr>capacity = 4, seatedGuests = 0\<rparr>"
    by (simp add: s_paid_def four_tables_def)
  show "placeOrder s_paid ''1 1 2'' = Some (OrderPlaced 1, s_reordered, [])"
    by (rule step_reorder)
  show "map_of (orders s_reordered) 1 =
     Some \<lparr>items = [RAW_FISH, EGGS], isCompleted = True, isPaid = True\<rparr>"
    by (simp add: s_reordered_def)
  show "payForOrder rand_example s_reordered ''1 y'' = Some (NoPendingOrders, s_reordered, ''1 y'')"
    by (simp add: s_reordered_def payForOrder_def checkOrderAndTableStatus_def)
  show "placeOrder s_reordered ''2 1 1'' = Some (OrderPlaced 2, s_reordered_and_pending, [])"
    by (rule step_reorder_place2)
  show "map_option (\<lambda>(out, s', inp'). (out, receiptLines (last (receipts s'))))
     (payForOrder rand_example s_reordered_and_pending ''1 y'') =
     Some (PaymentSuccessful \<lparr>subtotal = 80, tax = 8, tip = 16, total = 104\<rparr> 4886,
           [(''Raw Fish'', 35), (''Eggs'', 45)])"
    by (simp add: s_reordered_and_pending_def op_defs input_defs bill_fish_eggs tolower_y
        rand_example_def)
qed

end
